theory Spec2Isabelle
  imports Complex_Main
begin

section \<open>Floating-point values\<close>

text \<open>
  The rotator's metrics are Python floats. A finite float is modelled as a real number
  (rounding is idealised away); the three special values are kept, because the health
  check introduces \<open>float('inf')\<close> itself. The operations below follow IEEE 754 on the
  special values, as Python's \<open>+\<close>, \<open>-\<close>, \<open>*\<close>, \<open>/\<close> and comparisons do.
\<close>

datatype pyfloat = Fin real | PInf | MInf | NaN

fun fneg :: "pyfloat \<Rightarrow> pyfloat" where
  "fneg (Fin a) = Fin (- a)"
| "fneg PInf = MInf"
| "fneg MInf = PInf"
| "fneg NaN = NaN"

fun fadd :: "pyfloat \<Rightarrow> pyfloat \<Rightarrow> pyfloat" where
  "fadd (Fin a) (Fin b) = Fin (a + b)"
| "fadd NaN y = NaN"
| "fadd x NaN = NaN"
| "fadd PInf MInf = NaN"
| "fadd MInf PInf = NaN"
| "fadd PInf y = PInf"
| "fadd x PInf = PInf"
| "fadd MInf y = MInf"
| "fadd x MInf = MInf"

definition fsub :: "pyfloat \<Rightarrow> pyfloat \<Rightarrow> pyfloat" where
  "fsub x y = fadd x (fneg y)"

definition inf_times :: "real \<Rightarrow> pyfloat" where
  \<comment> \<open>\<open>inf * b\<close> for a finite \<open>b\<close>\<close>
  "inf_times b = (if 0 < b then PInf else if b < 0 then MInf else NaN)"

fun fmul :: "pyfloat \<Rightarrow> pyfloat \<Rightarrow> pyfloat" where
  "fmul (Fin a) (Fin b) = Fin (a * b)"
| "fmul NaN y = NaN"
| "fmul x NaN = NaN"
| "fmul PInf (Fin b) = inf_times b"
| "fmul (Fin a) PInf = inf_times a"
| "fmul MInf (Fin b) = fneg (inf_times b)"
| "fmul (Fin a) MInf = fneg (inf_times a)"
| "fmul PInf PInf = PInf"
| "fmul PInf MInf = MInf"
| "fmul MInf PInf = MInf"
| "fmul MInf MInf = PInf"

fun fdiv :: "pyfloat \<Rightarrow> pyfloat \<Rightarrow> pyfloat" where
  \<comment> \<open>Python raises ZeroDivisionError on a zero divisor; the only float division of the
      source has the literal divisor 5000, so a zero divisor never occurs.\<close>
  "fdiv (Fin a) (Fin b) = (if b = 0 then NaN else Fin (a / b))"
| "fdiv NaN y = NaN"
| "fdiv x NaN = NaN"
| "fdiv PInf (Fin b) = (if 0 \<le> b then PInf else MInf)"
| "fdiv MInf (Fin b) = (if 0 \<le> b then MInf else PInf)"
| "fdiv (Fin a) y = Fin 0"
| "fdiv x y = NaN"

fun flt :: "pyfloat \<Rightarrow> pyfloat \<Rightarrow> bool" where
  "flt (Fin a) (Fin b) = (a < b)"
| "flt NaN y = False"
| "flt x NaN = False"
| "flt x MInf = False"
| "flt MInf y = True"
| "flt PInf y = False"
| "flt x PInf = True"

fun fle :: "pyfloat \<Rightarrow> pyfloat \<Rightarrow> bool" where
  "fle (Fin a) (Fin b) = (a \<le> b)"
| "fle NaN y = False"
| "fle x NaN = False"
| "fle MInf y = True"
| "fle x PInf = True"
| "fle x y = False"

definition fge :: "pyfloat \<Rightarrow> pyfloat \<Rightarrow> bool" where
  "fge x y = fle y x"

definition pymax :: "pyfloat \<Rightarrow> pyfloat \<Rightarrow> pyfloat" where
  \<comment> \<open>\<open>max(a, b)\<close>: the second argument replaces the first only when it is greater\<close>
  "pymax a b = (if flt a b then b else a)"

fun is_finite :: "pyfloat \<Rightarrow> bool" where
  \<comment> \<open>\<open>math.isfinite\<close>\<close>
  "is_finite (Fin a) = True"
| "is_finite x = False"

section \<open>Endpoints\<close>

datatype ProxyHealth = EXCELLENT | GOOD | DEGRADED | POOR | DEAD

fun health_value :: "ProxyHealth \<Rightarrow> int" where
  "health_value EXCELLENT = 4"
| "health_value GOOD = 3"
| "health_value DEGRADED = 2"
| "health_value POOR = 1"
| "health_value DEAD = 0"

datatype SchoolBlockerType =
  IBOSS | SECURELY | GOGUARDIAN | LANSCHOOL | LIGHTSPEED
  | BARKLY | SMOOTHWALL | FORTIGUARD | SONICWALL | PALOALTO

type_synonym datetime = int

record ResidentialProxy =
  ip :: string
  port :: int
  state :: string
  city :: string
  isp :: string
  asn :: int
  latency :: pyfloat
  success_rate :: pyfloat
  last_used :: datetime
  health :: ProxyHealth
  protocol :: string
  username :: "string option"
  password :: "string option"

subsection \<open>Scoring\<close>

text \<open>
  The table \<open>blocker_optimizations\<close> of \<open>_calculate_blocker_score\<close>: for a tag with an
  entry, the pair of its \<open>preferred_isps\<close> and \<open>avoid_isps\<close>.
\<close>

fun blocker_optimizations :: "SchoolBlockerType \<Rightarrow> (string list \<times> string list) option" where
  "blocker_optimizations IBOSS =
     Some ([''Comcast'', ''AT&T'', ''Verizon'', ''Charter'', ''Cox''],
           [''Google Fiber'', ''CenturyLink''])"
| "blocker_optimizations GOGUARDIAN =
     Some ([''Spectrum'', ''Xfinity'', ''Optimum'', ''Mediacom'', ''Frontier''],
           [''Verizon Business'', ''AT&T Business''])"
| "blocker_optimizations SECURELY =
     Some ([''Cox'', ''Suddenlink'', ''Cable One'', ''WOW!'', ''RCN''],
           [''CenturyLink'', ''Frontier Communications''])"
| "blocker_optimizations LANSCHOOL =
     Some ([''AT&T'', ''Verizon'', ''CenturyLink'', ''Windstream'', ''Frontier''],
           [''Comcast Business'', ''Charter Business''])"
| "blocker_optimizations other = None"

definition calculate_blocker_score :: "ResidentialProxy \<Rightarrow> SchoolBlockerType option \<Rightarrow> pyfloat" where
  "calculate_blocker_score p blocker_type =
     (case blocker_type of
        None \<Rightarrow> Fin 0.5
      | Some b \<Rightarrow>
          (let optimization = blocker_optimizations b;
               preferred_isps = (case optimization of None \<Rightarrow> [] | Some t \<Rightarrow> fst t);
               avoid_isps = (case optimization of None \<Rightarrow> [] | Some t \<Rightarrow> snd t)
           in if isp p \<in> set preferred_isps then Fin 1.0
              else if isp p \<in> set avoid_isps then Fin 0.0
              else Fin 0.5))"

definition latency_score :: "ResidentialProxy \<Rightarrow> pyfloat" where
  \<comment> \<open>the local \<open>latency_score\<close> of \<open>score\<close>\<close>
  "latency_score p = pymax (Fin 0) (fsub (Fin 1) (fdiv (latency p) (Fin 5000)))"

definition score :: "ResidentialProxy \<Rightarrow> SchoolBlockerType option \<Rightarrow> pyfloat" where
  "score p blocker_type =
     (let latency_weight = Fin 0.3;
          success_weight = Fin 0.4;
          health_weight = Fin 0.2;
          blocker_weight = Fin 0.1;
          blocker_score = calculate_blocker_score p blocker_type
      in fadd (fadd (fadd (fmul (latency_score p) latency_weight)
                          (fmul (success_rate p) success_weight))
                    (fmul (fmul (Fin (of_int (health_value (health p)))) (Fin 0.25)) health_weight))
              (fmul blocker_score blocker_weight))"

text \<open>
  The scoring formula in the specification's words, over the reals. An infinite latency
  has latency score 0, the value of \<open>max(0, 1 - latency_ms/5000)\<close> there.
\<close>

definition spec_latency_score :: "pyfloat \<Rightarrow> real" where
  "spec_latency_score l = (case l of Fin x \<Rightarrow> max 0 (1 - x / 5000) | other \<Rightarrow> 0)"

definition spec_provider_score :: "string \<Rightarrow> SchoolBlockerType option \<Rightarrow> real" where
  "spec_provider_score provider tag =
     (case tag of
        None \<Rightarrow> 0.5
      | Some t \<Rightarrow>
          (case blocker_optimizations t of
             None \<Rightarrow> 0.5
           | Some (preferred, avoided) \<Rightarrow>
               if provider \<in> set preferred then 1.0
               else if provider \<in> set avoided then 0.0 else 0.5))"

definition spec_score :: "pyfloat \<Rightarrow> real \<Rightarrow> ProxyHealth \<Rightarrow> string \<Rightarrow> SchoolBlockerType option \<Rightarrow> real" where
  "spec_score l s h provider tag =
     0.30 * spec_latency_score l + 0.40 * s + 0.20 * (real_of_int (health_value h) / 4)
       + 0.10 * spec_provider_score provider tag"

section \<open>The rotator\<close>

text \<open>
  \<open>proxy_pool\<close> and the buckets of \<open>proxies_by_state\<close> hold references to the same
  \<open>ResidentialProxy\<close> objects, and both selection and the health check mutate an object
  in place. The objects therefore live in a store, addressed by references; the pool
  and the buckets are lists of references. The dictionary \<open>proxies_by_state\<close> is an
  association list in insertion order (its keys are distinct in Python).
\<close>

type_synonym ref = nat

record AdvancedProxyRotator =
  objects :: "ref \<Rightarrow> ResidentialProxy"
  proxies_by_state :: "(string \<times> ref list) list"
  proxy_pool :: "ref list"

datatype error =
  NoViableProxies  \<comment> \<open>\<open>Exception("No viable proxies available")\<close>\<close>
  | IndexError     \<comment> \<open>\<open>random.choice\<close> of an empty sequence, \<open>[0]\<close> of an empty list\<close>

definition lower_char :: "char \<Rightarrow> char" where
  "lower_char c =
     (case map_of (zip ''ABCDEFGHIJKLMNOPQRSTUVWXYZ'' ''abcdefghijklmnopqrstuvwxyz'') c of
        Some d \<Rightarrow> d
      | None \<Rightarrow> c)"

definition lower :: "string \<Rightarrow> string" where
  \<comment> \<open>\<open>str.lower()\<close> on ASCII text\<close>
  "lower s = map lower_char s"

definition state_keys :: "AdvancedProxyRotator \<Rightarrow> string list" where
  \<comment> \<open>\<open>list(self.proxies_by_state.keys())\<close>\<close>
  "state_keys self = map fst (proxies_by_state self)"

definition healthy :: "AdvancedProxyRotator \<Rightarrow> ref \<Rightarrow> bool" where
  \<comment> \<open>\<open>p.health.value >= ProxyHealth.DEGRADED.value\<close>\<close>
  "healthy self r = (health_value (health (objects self r)) \<ge> health_value DEGRADED)"

definition buckets_in_pool :: "AdvancedProxyRotator \<Rightarrow> bool" where
  \<comment> \<open>what \<open>_initialize_residential_proxies\<close> establishes: it appends every object it
      creates to its state's bucket and to \<open>proxy_pool\<close>\<close>
  "buckets_in_pool self =
     list_all (\<lambda>(k, bucket). list_all (\<lambda>r. r \<in> set (proxy_pool self)) bucket)
       (proxies_by_state self)"

text \<open>
  \<open>list.sort(reverse=True, key=...)\<close> is a stable sort into descending key order that
  compares keys with \<open><\<close> only: elements with equal keys keep their original order.
  On keys without NaN that result is unique; insertion from the right computes it.
\<close>

fun insort_reverse :: "pyfloat \<times> 'a \<Rightarrow> (pyfloat \<times> 'a) list \<Rightarrow> (pyfloat \<times> 'a) list" where
  "insort_reverse x [] = [x]"
| "insort_reverse x (y # ys) =
     (if flt (fst x) (fst y) then y # insort_reverse x ys else x # y # ys)"

definition sort_reverse :: "(pyfloat \<times> 'a) list \<Rightarrow> (pyfloat \<times> 'a) list" where
  "sort_reverse xs = foldr insort_reverse xs []"

text \<open>
  \<open>get_optimal_proxy\<close>. Its locals \<open>candidate_proxies\<close> and \<open>viable_proxies\<close> (after
  the fallback) are functions of their own here, so that results can name them.
\<close>

definition candidate_proxies :: "AdvancedProxyRotator \<Rightarrow> string option \<Rightarrow> ref list" where
  "candidate_proxies self target_state =
     (case target_state of
        None \<Rightarrow> proxy_pool self
      | Some ts \<Rightarrow>
          if ts \<noteq> [] then
            (case map_of (proxies_by_state self) (lower ts) of
               Some bucket \<Rightarrow> bucket
             | None \<Rightarrow> proxy_pool self)
          else proxy_pool self)"

definition viable_proxies :: "AdvancedProxyRotator \<Rightarrow> string option \<Rightarrow> pyfloat \<Rightarrow> ref list" where
  "viable_proxies self target_state target_latency =
     (let viable_proxies =
            filter (\<lambda>p. healthy self p \<and> fle (latency (objects self p)) target_latency)
              (candidate_proxies self target_state)
      in if viable_proxies = [] then filter (\<lambda>p. healthy self p) (proxy_pool self)
         else viable_proxies)"

text \<open>
  \<open>now\<close> is what \<open>datetime.now()\<close> returns. The result is the reference of the selected
  object and the rotator after the write to \<open>last_used\<close>.
\<close>

definition get_optimal_proxy ::
  "AdvancedProxyRotator \<Rightarrow> datetime \<Rightarrow> string option \<Rightarrow> SchoolBlockerType option \<Rightarrow> pyfloat
     \<Rightarrow> error + (ref \<times> AdvancedProxyRotator)" where
  "get_optimal_proxy self now target_state blocker_type target_latency =
     (let viable_proxies = viable_proxies self target_state target_latency
      in if viable_proxies = [] then Inl NoViableProxies
         else
           (let scored_proxies = map (\<lambda>p. (score (objects self p) blocker_type, p)) viable_proxies;
                scored_proxies = sort_reverse scored_proxies
            in case scored_proxies of
                 [] \<Rightarrow> Inl IndexError
               | best # rest \<Rightarrow>
                   (let best_proxy = snd best
                    in Inr (best_proxy,
                            self\<lparr>objects := (objects self)
                                   (best_proxy := (objects self best_proxy)\<lparr>last_used := now\<rparr>)\<rparr>))))"

fun blocker_latencies :: "SchoolBlockerType \<Rightarrow> pyfloat option" where
  "blocker_latencies IBOSS = Some (Fin 150.0)"
| "blocker_latencies GOGUARDIAN = Some (Fin 200.0)"
| "blocker_latencies SECURELY = Some (Fin 180.0)"
| "blocker_latencies LANSCHOOL = Some (Fin 250.0)"
| "blocker_latencies other = None"

definition get_proxy_for_school_blocker ::
  "AdvancedProxyRotator \<Rightarrow> datetime \<Rightarrow> SchoolBlockerType \<Rightarrow> string option
     \<Rightarrow> error + (ref \<times> AdvancedProxyRotator)" where
  "get_proxy_for_school_blocker self now blocker_type target_state =
     (let target_latency = (case blocker_latencies blocker_type of Some l \<Rightarrow> l | None \<Rightarrow> Fin 200.0)
      in get_optimal_proxy self now target_state (Some blocker_type) target_latency)"

subsection \<open>Chains\<close>

definition random_choice :: "nat \<Rightarrow> 'a list \<Rightarrow> error + 'a" where
  \<comment> \<open>\<open>random.choice(seq)\<close>, the random draw \<open>d\<close> given\<close>
  "random_choice d xs = (if xs = [] then Inl IndexError else Inr (xs ! (d mod length xs)))"

definition candidate_states :: "AdvancedProxyRotator \<Rightarrow> string list option \<Rightarrow> string list" where
  \<comment> \<open>\<open>states or list(self.proxies_by_state.keys())\<close>\<close>
  "candidate_states self states =
     (case states of
        None \<Rightarrow> state_keys self
      | Some ss \<Rightarrow> if ss \<noteq> [] then ss else state_keys self)"

definition available_states ::
  "AdvancedProxyRotator \<Rightarrow> string list option \<Rightarrow> string set \<Rightarrow> string list" where
  \<comment> \<open>the local \<open>available_states\<close> of the loop body, after its fallback to all keys\<close>
  "available_states self states used_states =
     (let available_states =
            filter (\<lambda>s. s \<notin> used_states) (candidate_states self states)
      in if available_states = [] then state_keys self else available_states)"

text \<open>
  The loop of \<open>rotate_proxy_chain\<close>: \<open>n\<close> iterations remain, \<open>i\<close> is the loop index,
  \<open>rnd i\<close> the random draw and \<open>clock i\<close> the time of iteration \<open>i\<close>. The loop state is
  \<open>chain\<close>, \<open>used_states\<close> and the rotator.
\<close>

fun rotate_loop ::
  "(nat \<Rightarrow> nat) \<Rightarrow> (nat \<Rightarrow> datetime) \<Rightarrow> string list option \<Rightarrow> SchoolBlockerType option
     \<Rightarrow> nat \<Rightarrow> nat \<Rightarrow> ref list \<times> string set \<times> AdvancedProxyRotator
     \<Rightarrow> error + (ref list \<times> string set \<times> AdvancedProxyRotator)" where
  "rotate_loop rnd clock states blocker_type 0 i st = Inr st"
| "rotate_loop rnd clock states blocker_type (Suc n) i (chain, used_states, self) =
     (case random_choice (rnd i) (available_states self states used_states) of
        Inl e \<Rightarrow> Inl e
      | Inr target_state \<Rightarrow>
          (case get_optimal_proxy self (clock i) (Some target_state) blocker_type (Fin 200.0) of
             Inl e \<Rightarrow> Inl e
           | Inr (proxy, self') \<Rightarrow>
               rotate_loop rnd clock states blocker_type n (Suc i)
                 (chain @ [proxy], insert target_state used_states, self')))"

definition rotate_proxy_chain ::
  "AdvancedProxyRotator \<Rightarrow> (nat \<Rightarrow> nat) \<Rightarrow> (nat \<Rightarrow> datetime) \<Rightarrow> int \<Rightarrow> string list option
     \<Rightarrow> SchoolBlockerType option \<Rightarrow> error + (ref list \<times> AdvancedProxyRotator)" where
  "rotate_proxy_chain self rnd clock chain_length states blocker_type =
     (case rotate_loop rnd clock states blocker_type (nat chain_length) 0 ([], {}, self) of
        Inl e \<Rightarrow> Inl e
      | Inr (chain, used_states, self') \<Rightarrow> Inr (chain, self'))"

subsection \<open>Health check\<close>

text \<open>
  One probe per test URL: either the request raised (timeout, connection error), or a
  response came back with a status code after \<open>elapsed\<close> milliseconds.
\<close>

datatype probe = Response int real | Raised

fun probe_loop :: "probe list \<Rightarrow> nat \<times> real \<Rightarrow> nat \<times> real" where
  \<comment> \<open>the pair is \<open>(success_count, total_latency)\<close>\<close>
  "probe_loop [] acc = acc"
| "probe_loop (Response status elapsed # ps) (success_count, total_latency) =
     (if status \<in> {200, 204} then probe_loop ps (success_count + 1, total_latency + elapsed)
      else probe_loop ps (success_count, total_latency))"
| "probe_loop (Raised # ps) acc = probe_loop ps acc"

text \<open>
  \<open>health_check_proxy\<close> on one object: the updated object and the returned flag.
  \<open>probes\<close> has one entry per test URL, so \<open>len(test_urls)\<close> is its length; the local
  variable \<open>success_rate\<close> of the source is \<open>success_rate'\<close> here.
\<close>

definition health_check_proxy :: "probe list \<Rightarrow> ResidentialProxy \<Rightarrow> ResidentialProxy \<times> bool" where
  "health_check_proxy probes proxy =
     (let (success_count, total_latency) = probe_loop probes (0, 0);
          success_rate' =
            (if probes \<noteq> [] then Fin (real success_count / real (length probes)) else Fin 0);
          avg_latency =
            (if success_count \<noteq> 0 then Fin (total_latency / real success_count) else PInf);
          proxy = proxy\<lparr>latency := fadd (fmul (latency proxy) (Fin 0.7)) (fmul avg_latency (Fin 0.3))\<rparr>;
          proxy = proxy\<lparr>success_rate :=
                    fadd (fmul (success_rate proxy) (Fin 0.7)) (fmul success_rate' (Fin 0.3))\<rparr>;
          proxy = proxy\<lparr>health :=
                    (if fge success_rate' (Fin 0.9) \<and> flt (latency proxy) (Fin 300) then EXCELLENT
                     else if fge success_rate' (Fin 0.7) \<and> flt (latency proxy) (Fin 600) then GOOD
                     else if fge success_rate' (Fin 0.5) then DEGRADED
                     else POOR)\<rparr>
      in (proxy, fge success_rate' (Fin 0.5)))"

definition health_check_proxy_at ::
  "AdvancedProxyRotator \<Rightarrow> probe list \<Rightarrow> ref \<Rightarrow> AdvancedProxyRotator \<times> bool" where
  \<comment> \<open>the health check of the object behind a reference, as the monitor runs it\<close>
  "health_check_proxy_at self probes r =
     (let (proxy, ok) = health_check_proxy probes (objects self r)
      in (self\<lparr>objects := (objects self)(r := proxy)\<rparr>, ok))"

text \<open>Successive health checks of one object, one battery of probes per cycle.\<close>

fun health_checks :: "probe list list \<Rightarrow> ResidentialProxy \<Rightarrow> ResidentialProxy" where
  "health_checks [] proxy = proxy"
| "health_checks (probes # later) proxy = health_checks later (fst (health_check_proxy probes proxy))"

text \<open>
  The probe cycle in the specification's words: the latencies of the successful probes,
  \<open>rawSuccessRate = successes / attempted\<close>, \<open>rawLatency\<close> the mean latency of the
  successful probes or the +infinity sentinel when there is none, and the health
  thresholds evaluated in order on a success rate and a latency.
\<close>

fun successful_latencies :: "probe list \<Rightarrow> real list" where
  "successful_latencies [] = []"
| "successful_latencies (Response status elapsed # ps) =
     (if status = 200 \<or> status = 204 then elapsed # successful_latencies ps
      else successful_latencies ps)"
| "successful_latencies (Raised # ps) = successful_latencies ps"

definition spec_raw_success_rate :: "probe list \<Rightarrow> pyfloat" where
  "spec_raw_success_rate probes =
     Fin (real (length (successful_latencies probes)) / real (length probes))"

definition spec_raw_latency :: "probe list \<Rightarrow> pyfloat" where
  "spec_raw_latency probes =
     (if successful_latencies probes = [] then PInf
      else Fin (sum_list (successful_latencies probes) / real (length (successful_latencies probes))))"

definition spec_classify :: "pyfloat \<Rightarrow> pyfloat \<Rightarrow> ProxyHealth" where
  "spec_classify sr lat =
     (if fle (Fin 0.9) sr \<and> flt lat (Fin 300) then EXCELLENT
      else if fle (Fin 0.7) sr \<and> flt lat (Fin 600) then GOOD
      else if fle (Fin 0.5) sr then DEGRADED
      else POOR)"

definition ema :: "pyfloat \<Rightarrow> pyfloat \<Rightarrow> pyfloat" where
  \<comment> \<open>\<open>0.7 * old + 0.3 * raw\<close>\<close>
  "ema old raw = fadd (fmul (Fin 0.7) old) (fmul (Fin 0.3) raw)"

section \<open>Predicates on registries\<close>

text \<open>
  A region name is ready when it is not empty, names a bucket (after lowercasing, as the
  selection looks it up), every endpoint of the bucket carries that region, and the
  bucket holds an endpoint that passes the viability filter with the default ceiling
  of 200 ms.
\<close>

definition bucket_ready :: "AdvancedProxyRotator \<Rightarrow> string \<Rightarrow> bool" where
  "bucket_ready self s =
     (s \<noteq> [] \<and>
      (case map_of (proxies_by_state self) (lower s) of
         None \<Rightarrow> False
       | Some bucket \<Rightarrow>
           list_ex (\<lambda>r. healthy self r \<and> fle (latency (objects self r)) (Fin 200)) bucket
           \<and> list_all (\<lambda>r. state (objects self r) = lower s) bucket))"

text \<open>Two rotators with the same buckets and pool whose objects differ in \<open>last_used\<close> at most.\<close>

definition same_registry :: "AdvancedProxyRotator \<Rightarrow> AdvancedProxyRotator \<Rightarrow> bool" where
  "same_registry a b =
     (proxies_by_state b = proxies_by_state a \<and> proxy_pool b = proxy_pool a
      \<and> (\<forall>q. (objects b q)\<lparr>last_used := 0\<rparr> = (objects a q)\<lparr>last_used := 0\<rparr>))"

section \<open>Example registries\<close>

definition example_proxy ::
  "string \<Rightarrow> string \<Rightarrow> pyfloat \<Rightarrow> pyfloat \<Rightarrow> ProxyHealth \<Rightarrow> ResidentialProxy" where
  "example_proxy region provider lat sr h =
     \<lparr>ip = ''192.168.1.1'', port = 8080, state = region, city = ''Houston'', isp = provider,
      asn = 1000, latency = lat, success_rate = sr, last_used = 0, health = h,
      protocol = ''http'', username = None, password = None\<rparr>"

definition two_regions :: AdvancedProxyRotator where
  \<comment> \<open>texas holds one slow endpoint, ohio one fast endpoint\<close>
  "two_regions =
     \<lparr>objects = (\<lambda>r. if r = 10 then example_proxy ''texas'' ''Comcast'' (Fin 500) (Fin 0.9) GOOD
                      else example_proxy ''ohio'' ''Comcast'' (Fin 50) (Fin 0.95) EXCELLENT),
      proxies_by_state = [(''texas'', [10]), (''ohio'', [11])],
      proxy_pool = [10, 11]\<rparr>"

definition tied_pair :: AdvancedProxyRotator where
  \<comment> \<open>two endpoints that differ in latency only, both beyond 5000 ms\<close>
  "tied_pair =
     \<lparr>objects = (\<lambda>r. if r = 10 then example_proxy ''texas'' ''Comcast'' (Fin 6000) (Fin 0.9) GOOD
                      else example_proxy ''texas'' ''Comcast'' (Fin 5500) (Fin 0.9) GOOD),
      proxies_by_state = [(''texas'', [10, 11])],
      proxy_pool = [10, 11]\<rparr>"

definition all_dead :: AdvancedProxyRotator where
  "all_dead =
     \<lparr>objects = (\<lambda>r. example_proxy ''texas'' ''Comcast'' (Fin 100) (Fin 0.9) DEAD),
      proxies_by_state = [(''texas'', [10, 11])],
      proxy_pool = [10, 11]\<rparr>"

definition fast_regions :: AdvancedProxyRotator where
  \<comment> \<open>texas and ohio, each with one endpoint below 200 ms\<close>
  "fast_regions =
     \<lparr>objects = (\<lambda>r. if r = 10 then example_proxy ''texas'' ''Comcast'' (Fin 100) (Fin 0.9) GOOD
                      else example_proxy ''ohio'' ''Comcast'' (Fin 50) (Fin 0.95) EXCELLENT),
      proxies_by_state = [(''texas'', [10]), (''ohio'', [11])],
      proxy_pool = [10, 11]\<rparr>"

definition first_choice :: "nat \<Rightarrow> nat" where
  \<comment> \<open>random draws that always pick element 0\<close>
  "first_choice i = 0"

definition fixed_clock :: "nat \<Rightarrow> datetime" where
  "fixed_clock i = 7"

definition chain_regions :: "error + ref list \<times> AdvancedProxyRotator \<Rightarrow> error + string list" where
  \<comment> \<open>\<open>[p.state for p in chain]\<close> of a returned chain\<close>
  "chain_regions res = map_sum id (\<lambda>(chain, self'). map (\<lambda>r. state (objects self' r)) chain) res"

section \<open>Scoring: results\<close>

lemma blocker_score_spec:
  "calculate_blocker_score p tag = Fin (spec_provider_score (isp p) tag)"
  by (cases tag; cases "blocker_optimizations (the tag)")
     (auto simp: calculate_blocker_score_def spec_provider_score_def Let_def split: prod.splits)

lemma spec_provider_score_range:
  "0 \<le> spec_provider_score provider tag \<and> spec_provider_score provider tag \<le> 1"
  by (auto simp: spec_provider_score_def split: option.splits prod.splits)

lemma latency_score_spec:
  assumes "fle (Fin 0) (latency p)"
  shows "latency_score p = Fin (spec_latency_score (latency p))"
  using assms
  by (cases "latency p") (auto simp: latency_score_def pymax_def fsub_def spec_latency_score_def max_def)

lemma spec_latency_score_range:
  assumes "fle (Fin 0) l"
  shows "0 \<le> spec_latency_score l \<and> spec_latency_score l \<le> 1"
  using assms by (cases l) (auto simp: spec_latency_score_def max_def)

lemma health_value_range: "0 \<le> health_value h \<and> health_value h \<le> 4"
  by (cases h) auto

text \<open>
  C1. For an endpoint whose success rate lies in [0,1] and whose latency is at least 0,
  and for every optional policy tag, \<open>score\<close> is the weighted sum
  0.30 * latencyScore + 0.40 * successRate + 0.20 * (health ordinal / 4)
  + 0.10 * providerScore of the specification, and the result lies in [0,1].
\<close>

theorem score_weighted_sum:
  assumes "success_rate p = Fin s" and "0 \<le> s" and "s \<le> 1" and "fle (Fin 0) (latency p)"
  shows "score p tag = Fin (spec_score (latency p) s (health p) (isp p) tag)
           \<and> 0 \<le> spec_score (latency p) s (health p) (isp p) tag
           \<and> spec_score (latency p) s (health p) (isp p) tag \<le> 1"
proof -
  have eq: "score p tag = Fin (spec_score (latency p) s (health p) (isp p) tag)"
    by (simp add: score_def Let_def latency_score_spec [OF assms(4)] blocker_score_spec assms(1)
        spec_score_def)
  note l = spec_latency_score_range [OF assms(4)]
  note b = spec_provider_score_range [of "isp p" tag]
  have h: "0 \<le> real_of_int (health_value (health p)) \<and> real_of_int (health_value (health p)) \<le> 4"
    using health_value_range [of "health p"] by simp
  have lo: "0 \<le> spec_score (latency p) s (health p) (isp p) tag"
    using l b h assms(2) by (simp add: spec_score_def)
  have hi: "spec_score (latency p) s (health p) (isp p) tag \<le> 1"
    using l b h assms(3) by (simp add: spec_score_def)
  from eq lo hi show ?thesis by blast
qed

theorem score_weighted_sum_witness:
  "success_rate (example_proxy ''texas'' ''Comcast'' (Fin 50) (Fin 0.95) EXCELLENT) = Fin 0.95
   \<and> fle (Fin 0) (latency (example_proxy ''texas'' ''Comcast'' (Fin 50) (Fin 0.95) EXCELLENT))
   \<and> score (example_proxy ''texas'' ''Comcast'' (Fin 50) (Fin 0.95) EXCELLENT) (Some IBOSS)
       = Fin 0.977"
  using score_weighted_sum
    [of "example_proxy ''texas'' ''Comcast'' (Fin 50) (Fin 0.95) EXCELLENT" "0.95" "Some IBOSS"]
  by (simp add: example_proxy_def spec_score_def spec_latency_score_def spec_provider_score_def)

section \<open>Health check: results\<close>

lemma probe_loop_spec:
  "probe_loop probes (c, t) =
     (c + length (successful_latencies probes), t + sum_list (successful_latencies probes))"
proof (induction probes arbitrary: c t)
  case Nil
  then show ?case by simp
next
  case (Cons pr probes)
  then show ?case by (cases pr) auto
qed

lemma fmul_commute: "fmul x y = fmul y x"
  by (cases x; cases y) (auto simp: mult.commute)

text \<open>
  The object after a health check: both metrics are smoothed, and the health is
  classified from the raw success rate of this cycle and the smoothed latency.
\<close>

lemma health_check_proxy_eq:
  "fst (health_check_proxy probes p) =
     p\<lparr>latency := ema (latency p) (spec_raw_latency probes),
       success_rate := ema (success_rate p) (spec_raw_success_rate probes),
       health := spec_classify (spec_raw_success_rate probes)
                   (ema (latency p) (spec_raw_latency probes))\<rparr>"
proof (cases "probes = []")
  case True
  then show ?thesis
    by (simp add: health_check_proxy_def Let_def ema_def spec_raw_latency_def
        spec_raw_success_rate_def spec_classify_def fge_def fmul_commute)
next
  case False
  then show ?thesis
    by (simp add: health_check_proxy_def probe_loop_spec Let_def ema_def spec_raw_latency_def
        spec_raw_success_rate_def spec_classify_def fge_def fmul_commute)
qed

lemma ema_inf_old: "ema PInf (spec_raw_latency probes) = PInf"
  by (simp add: ema_def spec_raw_latency_def inf_times_def)

lemma ema_inf_raw: "fle (Fin 0) l \<Longrightarrow> ema l PInf = PInf"
  by (cases l) (simp_all add: ema_def inf_times_def)

lemma spec_classify_inf: "spec_classify sr PInf = DEGRADED \<or> spec_classify sr PInf = POOR"
  by (simp add: spec_classify_def)

lemma health_check_inf_latency:
  assumes "latency p = PInf"
  shows "latency (fst (health_check_proxy probes p)) = PInf"
    and "health (fst (health_check_proxy probes p)) = DEGRADED
           \<or> health (fst (health_check_proxy probes p)) = POOR"
  using assms spec_classify_inf [of "spec_raw_success_rate probes"]
  by (simp_all add: health_check_proxy_eq ema_inf_old)

lemma zero_success_latency:
  assumes "successful_latencies probes = []" and "fle (Fin 0) (latency p)"
  shows "latency (fst (health_check_proxy probes p)) = PInf"
    and "health (fst (health_check_proxy probes p)) = DEGRADED
           \<or> health (fst (health_check_proxy probes p)) = POOR"
proof -
  have r: "spec_raw_latency probes = PInf"
    using assms(1) by (simp add: spec_raw_latency_def)
  show "latency (fst (health_check_proxy probes p)) = PInf"
    by (simp add: health_check_proxy_eq r ema_inf_raw [OF assms(2)])
  show "health (fst (health_check_proxy probes p)) = DEGRADED
           \<or> health (fst (health_check_proxy probes p)) = POOR"
    using spec_classify_inf [of "spec_raw_success_rate probes"]
    by (simp add: health_check_proxy_eq r ema_inf_raw [OF assms(2)])
qed

lemma health_checks_inf_latency:
  assumes "latency p = PInf" and "health p = DEGRADED \<or> health p = POOR"
  shows "latency (health_checks later p) = PInf
     \<and> (health (health_checks later p) = DEGRADED \<or> health (health_checks later p) = POOR)"
  using assms
proof (induction later arbitrary: p)
  case Nil
  then show ?case by simp
next
  case (Cons probes later)
  show ?case
    using Cons.IH [of "fst (health_check_proxy probes p)"]
      health_check_inf_latency [OF Cons.prems(1)]
    by simp
qed

lemma latency_score_inf: "latency p = PInf \<Longrightarrow> latency_score p = Fin 0"
  by (simp add: latency_score_def fsub_def pymax_def)

text \<open>
  C4, as the claim states it, fails. Three probes out of three succeed at 50 ms on an
  endpoint whose success rate was 0 and whose latency was 100 ms: the updated success
  rate is 0.3 and the updated latency 85 ms, which the thresholds of the claim classify
  as POOR, and the health check sets EXCELLENT.
\<close>

theorem health_from_updated_metrics_counterexample:
  "health (fst (health_check_proxy [Response 200 50, Response 200 50, Response 204 50]
             (example_proxy ''texas'' ''Comcast'' (Fin 100) (Fin 0) POOR))) = EXCELLENT
   \<and> success_rate (fst (health_check_proxy [Response 200 50, Response 200 50, Response 204 50]
             (example_proxy ''texas'' ''Comcast'' (Fin 100) (Fin 0) POOR))) = Fin 0.3
   \<and> latency (fst (health_check_proxy [Response 200 50, Response 200 50, Response 204 50]
             (example_proxy ''texas'' ''Comcast'' (Fin 100) (Fin 0) POOR))) = Fin 85
   \<and> spec_classify (Fin 0.3) (Fin 85) = POOR"
  by (simp add: health_check_proxy_def example_proxy_def spec_classify_def fge_def)

text \<open>
  C4, amended. After every probe cycle with at least one probe, the new health state of
  the endpoint is computed from the raw success rate of this cycle (successes over
  attempts, not the smoothed value) and the updated, smoothed latency, by the thresholds
  in order: raw success rate at least 0.9 and updated latency below 300 gives EXCELLENT;
  else at least 0.7 and below 600 gives GOOD; else at least 0.5 gives DEGRADED; else POOR.
\<close>

theorem health_from_raw_success_rate:
  assumes "probes \<noteq> []"
  shows "health (fst (health_check_proxy probes p)) =
           spec_classify (spec_raw_success_rate probes)
             (latency (fst (health_check_proxy probes p)))"
  by (simp add: health_check_proxy_eq)

theorem health_from_raw_success_rate_witness:
  "[Response 200 50, Response 200 50, Response 204 50] \<noteq> []
   \<and> health (fst (health_check_proxy [Response 200 50, Response 200 50, Response 204 50]
             (example_proxy ''texas'' ''Comcast'' (Fin 100) (Fin 0) POOR))) =
      spec_classify (Fin 1) (Fin 85)"
  using health_from_raw_success_rate [of "[Response 200 50, Response 200 50, Response 204 50]"
      "example_proxy ''texas'' ''Comcast'' (Fin 100) (Fin 0) POOR"]
  by (simp add: health_check_proxy_def example_proxy_def spec_raw_success_rate_def Let_def
      spec_classify_def fge_def)

text \<open>
  C7. A probe cycle with at least one probe smooths both metrics with the raw values of
  the cycle: the new latency is 0.7 * latency + 0.3 * rawLatency and the new success
  rate is 0.7 * success rate + 0.3 * rawSuccessRate, where rawSuccessRate is successes
  over attempts and rawLatency the mean latency of the successful probes. With two of
  three probes succeeding at 50 ms and 100 ms, a prior success rate of 0.5 and a prior
  latency of 200 ms, the raw values are 2/3 and 75, the updated values are 0.55 and
  162.5, and the health becomes DEGRADED.
\<close>

theorem probe_cycle_smoothing:
  assumes "probes \<noteq> []"
  shows "latency (fst (health_check_proxy probes p)) = ema (latency p) (spec_raw_latency probes)
     \<and> success_rate (fst (health_check_proxy probes p)) =
         ema (success_rate p) (spec_raw_success_rate probes)
     \<and> (probes = [Response 200 50, Response 200 100, Raised] \<and> success_rate p = Fin 0.5
          \<and> latency p = Fin 200 \<longrightarrow>
         spec_raw_success_rate probes = Fin (2 / 3) \<and> spec_raw_latency probes = Fin 75
         \<and> success_rate (fst (health_check_proxy probes p)) = Fin 0.55
         \<and> latency (fst (health_check_proxy probes p)) = Fin 162.5
         \<and> health (fst (health_check_proxy probes p)) = DEGRADED)"
proof -
  have 1: "latency (fst (health_check_proxy probes p)) = ema (latency p) (spec_raw_latency probes)"
    by (simp add: health_check_proxy_eq)
  have 2: "success_rate (fst (health_check_proxy probes p)) =
         ema (success_rate p) (spec_raw_success_rate probes)"
    by (simp add: health_check_proxy_eq)
  have 3: "spec_raw_success_rate probes = Fin (2 / 3) \<and> spec_raw_latency probes = Fin 75
         \<and> success_rate (fst (health_check_proxy probes p)) = Fin 0.55
         \<and> latency (fst (health_check_proxy probes p)) = Fin 162.5
         \<and> health (fst (health_check_proxy probes p)) = DEGRADED"
    if "probes = [Response 200 50, Response 200 100, Raised]" "success_rate p = Fin 0.5"
      "latency p = Fin 200"
    using that
    by (simp add: health_check_proxy_eq spec_raw_success_rate_def spec_raw_latency_def ema_def
        spec_classify_def)
  from 1 2 3 show ?thesis by blast
qed

theorem probe_cycle_smoothing_witness:
  "[Response 200 50, Response 200 100, Raised] \<noteq> []
   \<and> success_rate (example_proxy ''texas'' ''Comcast'' (Fin 200) (Fin 0.5) GOOD) = Fin 0.5
   \<and> latency (example_proxy ''texas'' ''Comcast'' (Fin 200) (Fin 0.5) GOOD) = Fin 200
   \<and> success_rate (fst (health_check_proxy [Response 200 50, Response 200 100, Raised]
         (example_proxy ''texas'' ''Comcast'' (Fin 200) (Fin 0.5) GOOD))) = Fin 0.55
   \<and> latency (fst (health_check_proxy [Response 200 50, Response 200 100, Raised]
         (example_proxy ''texas'' ''Comcast'' (Fin 200) (Fin 0.5) GOOD))) = Fin 162.5
   \<and> health (fst (health_check_proxy [Response 200 50, Response 200 100, Raised]
         (example_proxy ''texas'' ''Comcast'' (Fin 200) (Fin 0.5) GOOD))) = DEGRADED"
  using probe_cycle_smoothing [of "[Response 200 50, Response 200 100, Raised]"
      "example_proxy ''texas'' ''Comcast'' (Fin 200) (Fin 0.5) GOOD"]
  by (simp add: example_proxy_def ema_def)

text \<open>
  C8. When no probe of a cycle succeeds and the endpoint's latency is not negative, the
  raw latency is the +infinity sentinel and the smoothing sets the latency to +infinity.
  From then on every later health check, whatever its probes return, leaves the latency
  at +infinity: the latency score is 0, and the health is never EXCELLENT or GOOD again.
\<close>

theorem zero_successes_latency_infinite:
  assumes "successful_latencies probes = []" and "fle (Fin 0) (latency p)"
  shows "spec_raw_latency probes = PInf
     \<and> latency (fst (health_check_proxy probes p)) = PInf
     \<and> latency (health_checks later (fst (health_check_proxy probes p))) = PInf
     \<and> latency_score (health_checks later (fst (health_check_proxy probes p))) = Fin 0
     \<and> health (health_checks later (fst (health_check_proxy probes p))) \<noteq> EXCELLENT
     \<and> health (health_checks later (fst (health_check_proxy probes p))) \<noteq> GOOD"
proof -
  let ?q = "fst (health_check_proxy probes p)"
  have q: "latency ?q = PInf" "health ?q = DEGRADED \<or> health ?q = POOR"
    using zero_success_latency [OF assms] by simp_all
  have l: "latency (health_checks later ?q) = PInf
     \<and> (health (health_checks later ?q) = DEGRADED \<or> health (health_checks later ?q) = POOR)"
    by (rule health_checks_inf_latency [OF q])
  then have "latency_score (health_checks later ?q) = Fin 0"
    by (simp add: latency_score_inf)
  moreover have "spec_raw_latency probes = PInf"
    using assms(1) by (simp add: spec_raw_latency_def)
  ultimately show ?thesis using q l by auto
qed

theorem zero_successes_latency_infinite_witness:
  "successful_latencies [Raised, Response 500 50, Raised] = []
   \<and> fle (Fin 0) (latency (example_proxy ''texas'' ''Comcast'' (Fin 100) (Fin 0.9) GOOD))
   \<and> latency (fst (health_check_proxy [Raised, Response 500 50, Raised]
        (example_proxy ''texas'' ''Comcast'' (Fin 100) (Fin 0.9) GOOD))) = PInf
   \<and> latency (health_checks [[Response 200 50, Response 200 50, Response 200 50]]
        (fst (health_check_proxy [Raised, Response 500 50, Raised]
          (example_proxy ''texas'' ''Comcast'' (Fin 100) (Fin 0.9) GOOD)))) = PInf
   \<and> health (health_checks [[Response 200 50, Response 200 50, Response 200 50]]
        (fst (health_check_proxy [Raised, Response 500 50, Raised]
          (example_proxy ''texas'' ''Comcast'' (Fin 100) (Fin 0.9) GOOD)))) \<noteq> EXCELLENT"
  using zero_successes_latency_infinite [of "[Raised, Response 500 50, Raised]"
      "example_proxy ''texas'' ''Comcast'' (Fin 100) (Fin 0.9) GOOD"
      "[[Response 200 50, Response 200 50, Response 200 50]]"]
  by (simp add: example_proxy_def)

section \<open>Selection: results\<close>

lemma flt_irrefl: "\<not> flt x x"
  by (cases x) auto

lemma flt_asym: "flt x y \<Longrightarrow> \<not> flt y x"
  by (cases x; cases y) auto

lemma flt_negtrans: "b \<noteq> NaN \<Longrightarrow> \<not> flt x b \<Longrightarrow> \<not> flt b z \<Longrightarrow> \<not> flt x z"
  by (cases x; cases b; cases z) auto

lemma not_flt_fle: "x \<noteq> NaN \<Longrightarrow> y \<noteq> NaN \<Longrightarrow> \<not> flt x y \<Longrightarrow> fle y x"
  by (cases x; cases y) auto

lemma flt_fle: "flt x y \<Longrightarrow> fle x y"
  by (cases x; cases y) auto

lemma fle_refl: "x \<noteq> NaN \<Longrightarrow> fle x x"
  by (cases x) auto

lemma set_insort_reverse: "set (insort_reverse x ys) = insert x (set ys)"
  by (induction ys) auto

lemma set_sort_reverse: "set (sort_reverse xs) = set xs"
  by (induction xs) (auto simp: sort_reverse_def set_insort_reverse)

lemma length_insort_reverse: "length (insort_reverse x ys) = Suc (length ys)"
  by (induction ys) auto

lemma length_sort_reverse: "length (sort_reverse xs) = length xs"
  by (induction xs) (auto simp: sort_reverse_def length_insort_reverse)

lemma sort_reverse_Nil_iff: "sort_reverse xs = [] \<longleftrightarrow> xs = []"
  using length_sort_reverse [of xs] by (metis length_0_conv)

lemma sort_reverse_Cons: "sort_reverse (x # xs) = insort_reverse x (sort_reverse xs)"
  by (simp add: sort_reverse_def)

lemma hd_insort_reverse:
  "hd (insort_reverse x ys) = (if ys \<noteq> [] \<and> flt (fst x) (fst (hd ys)) then hd ys else x)"
  by (cases ys) auto

lemma hd_sort_reverse_in: "xs \<noteq> [] \<Longrightarrow> hd (sort_reverse xs) \<in> set xs"
  using set_sort_reverse [of xs] sort_reverse_Nil_iff [of xs] by (metis hd_in_set)

lemma get_optimal_proxy_eq:
  "get_optimal_proxy self now ts bt cap =
     (if viable_proxies self ts cap = [] then Inl NoViableProxies
      else Inr (snd (hd (sort_reverse (map (\<lambda>p. (score (objects self p) bt, p))
                        (viable_proxies self ts cap)))),
                self\<lparr>objects := (objects self)
                  (snd (hd (sort_reverse (map (\<lambda>p. (score (objects self p) bt, p))
                        (viable_proxies self ts cap)))) :=
                   (objects self (snd (hd (sort_reverse (map (\<lambda>p. (score (objects self p) bt, p))
                        (viable_proxies self ts cap))))))\<lparr>last_used := now\<rparr>)\<rparr>))"
proof (cases "viable_proxies self ts cap = []")
  case True
  then show ?thesis by (simp add: get_optimal_proxy_def)
next
  case False
  then have "sort_reverse (map (\<lambda>p. (score (objects self p) bt, p)) (viable_proxies self ts cap)) \<noteq> []"
    by (simp add: sort_reverse_Nil_iff)
  with False show ?thesis
    by (simp add: get_optimal_proxy_def Let_def split: list.splits)
qed

lemma get_optimal_proxy_Inr:
  assumes "get_optimal_proxy self now ts bt cap = Inr (r, self')"
  shows "self' = self\<lparr>objects := (objects self)(r := (objects self r)\<lparr>last_used := now\<rparr>)\<rparr>"
    and "viable_proxies self ts cap \<noteq> []"
    and "r = snd (hd (sort_reverse (map (\<lambda>p. (score (objects self p) bt, p)) (viable_proxies self ts cap))))"
    and "r \<in> set (viable_proxies self ts cap)"
proof -
  from assms show 2: "viable_proxies self ts cap \<noteq> []"
    by (auto simp: get_optimal_proxy_eq split: if_splits)
  from assms 2 show 3: "r = snd (hd (sort_reverse (map (\<lambda>p. (score (objects self p) bt, p)) (viable_proxies self ts cap))))"
    by (simp add: get_optimal_proxy_eq)
  from assms 2 show "self' = self\<lparr>objects := (objects self)(r := (objects self r)\<lparr>last_used := now\<rparr>)\<rparr>"
    by (auto simp: get_optimal_proxy_eq)
  have "hd (sort_reverse (map (\<lambda>p. (score (objects self p) bt, p)) (viable_proxies self ts cap)))
      \<in> set (map (\<lambda>p. (score (objects self p) bt, p)) (viable_proxies self ts cap))"
    using 2 by (intro hd_sort_reverse_in) simp
  then show "r \<in> set (viable_proxies self ts cap)" unfolding 3 by auto
qed

lemma viable_proxies_healthy: "r \<in> set (viable_proxies self ts cap) \<Longrightarrow> healthy self r"
  by (auto simp: viable_proxies_def Let_def split: if_splits)

lemma candidate_proxies_in_pool:
  assumes "buckets_in_pool self"
  shows "set (candidate_proxies self ts) \<subseteq> set (proxy_pool self)"
proof -
  have "set bucket \<subseteq> set (proxy_pool self)" if "map_of (proxies_by_state self) k = Some bucket" for k bucket
    using assms map_of_SomeD [OF that]
    by (auto simp: buckets_in_pool_def list_all_iff)
  then show ?thesis
    by (auto simp: candidate_proxies_def split: option.splits if_splits)
qed

lemma viable_proxies_Nil_iff:
  assumes "buckets_in_pool self"
  shows "viable_proxies self ts cap = [] \<longleftrightarrow> (\<forall>r\<in>set (proxy_pool self). \<not> healthy self r)"
  using candidate_proxies_in_pool [OF assms, of ts]
  by (auto simp: viable_proxies_def Let_def filter_empty_conv)

text \<open>
  The head of the sorted list is the first element of the input with the greatest key:
  every element before it has a strictly smaller key, no element after it a greater one.
\<close>

lemma hd_sort_reverse_first_max:
  assumes "xs \<noteq> []" and "\<forall>x\<in>set xs. fst x \<noteq> NaN"
  shows "\<exists>ys zs. xs = ys @ hd (sort_reverse xs) # zs
           \<and> (\<forall>y\<in>set ys. flt (fst y) (fst (hd (sort_reverse xs))))
           \<and> (\<forall>z\<in>set zs. \<not> flt (fst (hd (sort_reverse xs))) (fst z))"
  using assms
proof (induction xs)
  case Nil
  then show ?case by simp
next
  case (Cons x xs)
  show ?case
  proof (cases "xs = []")
    case True
    have "[x] = [] @ x # [] \<and> (\<forall>y\<in>set []. flt (fst y) (fst x))
        \<and> (\<forall>z\<in>set []. \<not> flt (fst x) (fst z))"
      by simp
    then have "\<exists>ys zs. [x] = ys @ x # zs \<and> (\<forall>y\<in>set ys. flt (fst y) (fst x))
        \<and> (\<forall>z\<in>set zs. \<not> flt (fst x) (fst z))"
      by blast
    with True show ?thesis by (simp add: sort_reverse_def)
  next
    case False
    let ?b = "hd (sort_reverse xs)"
    from Cons False obtain ys zs where d: "xs = ys @ ?b # zs"
      "\<forall>y\<in>set ys. flt (fst y) (fst ?b)" "\<forall>z\<in>set zs. \<not> flt (fst ?b) (fst z)"
      by auto
    have ne: "sort_reverse xs \<noteq> []"
      using False by (simp add: sort_reverse_Nil_iff)
    have "?b \<in> set xs"
      using False by (rule hd_sort_reverse_in)
    with Cons.prems(2) have bnan: "fst ?b \<noteq> NaN"
      by simp
    show ?thesis
    proof (cases "flt (fst x) (fst ?b)")
      case True
      then have h: "hd (sort_reverse (x # xs)) = ?b"
        using ne by (simp add: sort_reverse_Cons hd_insort_reverse)
      have "x # xs = (x # ys) @ ?b # zs"
        using d(1) by simp
      moreover have "\<forall>y\<in>set (x # ys). flt (fst y) (fst ?b)"
        using d(2) True by simp
      ultimately show ?thesis
        unfolding h using d(3) by blast
    next
      case nlt: False
      then have h: "hd (sort_reverse (x # xs)) = x"
        by (simp add: sort_reverse_Cons hd_insort_reverse)
      have "\<not> flt (fst x) (fst z)" if "z \<in> set xs" for z
      proof -
        have "z \<in> set ys \<or> z = ?b \<or> z \<in> set zs"
          using that d(1) by (metis Un_iff set_ConsD set_append)
        then have "\<not> flt (fst ?b) (fst z)"
          using d(2,3) flt_asym flt_irrefl by blast
        with nlt bnan show ?thesis
          using flt_negtrans by blast
      qed
      then have "x # xs = [] @ x # xs \<and> (\<forall>y\<in>set []. flt (fst y) (fst x))
          \<and> (\<forall>z\<in>set xs. \<not> flt (fst x) (fst z))"
        by simp
      then show ?thesis
        unfolding h by blast
    qed
  qed
qed

lemma latency_score_cases: "(\<exists>x. latency_score p = Fin x) \<or> latency_score p = PInf"
  by (cases "latency p") (auto simp: latency_score_def pymax_def fsub_def)

lemma score_not_NaN:
  assumes "is_finite (success_rate p)"
  shows "score p tag \<noteq> NaN"
proof -
  from assms obtain s where "success_rate p = Fin s"
    by (cases "success_rate p") auto
  then show ?thesis
    using latency_score_cases [of p]
    by (auto simp: score_def Let_def blocker_score_spec inf_times_def)
qed

text \<open>
  C3, as the claim states it, fails. Two endpoints that differ in latency only, 6000 ms
  and 5500 ms, have the same score (the latency score of both is 0). The claim returns
  the one with the lower latency; the selection returns the other, which comes first
  in the pool.
\<close>

theorem tie_break_latency_counterexample:
  "viable_proxies tied_pair None (Fin 200) = [10, 11]
   \<and> score (objects tied_pair 10) None = score (objects tied_pair 11) None
   \<and> flt (latency (objects tied_pair 11)) (latency (objects tied_pair 10))
   \<and> map_sum id fst (get_optimal_proxy tied_pair 7 None None (Fin 200)) = Inr 10"
  by (simp add: get_optimal_proxy_def viable_proxies_def candidate_proxies_def tied_pair_def
        healthy_def example_proxy_def score_def latency_score_def calculate_blocker_score_def
        sort_reverse_def pymax_def fsub_def Let_def)

text \<open>
  C3, amended. For every non-empty list of surviving candidates, all with a finite
  success rate, the selection succeeds and returns a candidate of maximal score; when
  two or more candidates share the maximal score, the one earliest in the candidate
  list, that is in registry insertion order, is returned, whatever their latencies:
  every candidate before the returned one has a strictly smaller score. Nothing in the
  tie-break is random.
\<close>

theorem selects_first_maximal_score:
  assumes "viable_proxies self ts cap \<noteq> []"
    and "\<forall>p\<in>set (viable_proxies self ts cap). is_finite (success_rate (objects self p))"
  shows "\<exists>r self' before after.
           get_optimal_proxy self now ts bt cap = Inr (r, self')
           \<and> viable_proxies self ts cap = before @ r # after
           \<and> (\<forall>q\<in>set (viable_proxies self ts cap).
                 fle (score (objects self q) bt) (score (objects self r) bt))
           \<and> (\<forall>q\<in>set before. flt (score (objects self q) bt) (score (objects self r) bt))"
proof -
  let ?V = "viable_proxies self ts cap"
  let ?f = "\<lambda>p. (score (objects self p) bt, p)"
  let ?b = "hd (sort_reverse (map ?f ?V))"
  have nan: "score (objects self p) bt \<noteq> NaN" if "p \<in> set ?V" for p
    using assms(2) that score_not_NaN by blast
  have "map ?f ?V \<noteq> []" "\<forall>x\<in>set (map ?f ?V). fst x \<noteq> NaN"
    using assms(1) nan by auto
  from hd_sort_reverse_first_max [OF this] obtain ys zs where
    d: "map ?f ?V = ys @ ?b # zs" "\<forall>y\<in>set ys. flt (fst y) (fst ?b)"
      "\<forall>z\<in>set zs. \<not> flt (fst ?b) (fst z)"
    by blast
  from d(1) obtain before rest where
    1: "?V = before @ rest" "ys = map ?f before" "?b # zs = map ?f rest"
    by (auto simp: map_eq_append_conv)
  from 1(3) obtain r after where 2: "rest = r # after" "?b = ?f r" "zs = map ?f after"
    by (auto simp: Cons_eq_map_conv)
  have V: "?V = before @ r # after"
    using 1(1) 2(1) by simp
  have r: "r = snd ?b"
    using 2(2) by simp
  have g: "get_optimal_proxy self now ts bt cap =
      Inr (r, self\<lparr>objects := (objects self)(r := (objects self r)\<lparr>last_used := now\<rparr>)\<rparr>)"
    using assms(1) by (simp add: get_optimal_proxy_eq r)
  have lt: "\<forall>q\<in>set before. flt (score (objects self q) bt) (score (objects self r) bt)"
    using d(2) 1(2) 2(2) by simp
  have ge: "\<forall>q\<in>set after. \<not> flt (score (objects self r) bt) (score (objects self q) bt)"
    using d(3) 2(2,3) by simp
  have rV: "r \<in> set ?V"
    using V by simp
  have "fle (score (objects self q) bt) (score (objects self r) bt)" if "q \<in> set ?V" for q
  proof -
    from that V have "q \<in> set before \<or> q = r \<or> q \<in> set after"
      by auto
    then show ?thesis
      using lt ge flt_fle fle_refl not_flt_fle nan [OF that] nan [OF rV] by blast
  qed
  with g V lt show ?thesis
    by blast
qed

theorem selects_first_maximal_score_witness:
  "viable_proxies tied_pair None (Fin 200) = [10, 11]
   \<and> success_rate (objects tied_pair 10) = Fin 0.9
   \<and> success_rate (objects tied_pair 11) = Fin 0.9
   \<and> (\<exists>r self' before after.
           get_optimal_proxy tied_pair 7 None None (Fin 200) = Inr (r, self')
           \<and> viable_proxies tied_pair None (Fin 200) = before @ r # after
           \<and> (\<forall>q\<in>set (viable_proxies tied_pair None (Fin 200)).
                 fle (score (objects tied_pair q) None) (score (objects tied_pair r) None))
           \<and> (\<forall>q\<in>set before. flt (score (objects tied_pair q) None) (score (objects tied_pair r) None)))"
proof -
  have v: "viable_proxies tied_pair None (Fin 200) = [10, 11]"
    by (simp add: viable_proxies_def candidate_proxies_def tied_pair_def healthy_def example_proxy_def)
  have s: "success_rate (objects tied_pair 10) = Fin 0.9" "success_rate (objects tied_pair 11) = Fin 0.9"
    by (simp_all add: tied_pair_def example_proxy_def)
  have "viable_proxies tied_pair None (Fin 200) \<noteq> []"
    "\<forall>p\<in>set (viable_proxies tied_pair None (Fin 200)). is_finite (success_rate (objects tied_pair p))"
    using s by (simp_all add: v)
  from selects_first_maximal_score [OF this, of 7 None] v s show ?thesis
    by simp
qed

text \<open>
  C2, as the claim states it, fails. The region hint names the bucket of texas, whose
  only endpoint is healthy but too slow for the 200 ms ceiling. The claim's fallback
  set, the healthy endpoints of that bucket, is not empty; the selection returns the
  endpoint of ohio.
\<close>

theorem fallback_same_bucket_counterexample:
  "candidate_proxies two_regions (Some ''texas'') = [10]
   \<and> filter (\<lambda>p. healthy two_regions p \<and> fle (latency (objects two_regions p)) (Fin 200))
         (candidate_proxies two_regions (Some ''texas'')) = []
   \<and> filter (\<lambda>p. healthy two_regions p) (candidate_proxies two_regions (Some ''texas'')) = [10]
   \<and> map_sum id fst (get_optimal_proxy two_regions 7 (Some ''texas'') None (Fin 200)) = Inr 11
   \<and> state (objects two_regions 11) = ''ohio''"
  by (simp add: get_optimal_proxy_def viable_proxies_def candidate_proxies_def two_regions_def
        healthy_def example_proxy_def score_def latency_score_def calculate_blocker_score_def
        sort_reverse_def pymax_def fsub_def lower_def lower_char_def Let_def)

text \<open>
  C2, amended. When no endpoint of the candidate set passes the viability filter, the
  fallback set consists of the endpoints of the entire pool, of every region, with
  health at least DEGRADED, latency ignored. The returned endpoint is drawn from that
  set whenever it is not empty, so it may lie outside the hinted region; when it is
  empty the call fails with the no-viable-endpoint error.
\<close>

theorem fallback_whole_pool:
  assumes "filter (\<lambda>p. healthy self p \<and> fle (latency (objects self p)) cap)
             (candidate_proxies self ts) = []"
  shows "viable_proxies self ts cap = filter (\<lambda>p. healthy self p) (proxy_pool self)
     \<and> (filter (\<lambda>p. healthy self p) (proxy_pool self) \<noteq> [] \<longrightarrow>
          (\<exists>r self'. get_optimal_proxy self now ts bt cap = Inr (r, self')
             \<and> r \<in> set (proxy_pool self) \<and> healthy self r))
     \<and> (filter (\<lambda>p. healthy self p) (proxy_pool self) = [] \<longrightarrow>
          get_optimal_proxy self now ts bt cap = Inl NoViableProxies)"
proof -
  have v: "viable_proxies self ts cap = filter (\<lambda>p. healthy self p) (proxy_pool self)"
    using assms by (simp add: viable_proxies_def)
  have "\<exists>r self'. get_optimal_proxy self now ts bt cap = Inr (r, self')
             \<and> r \<in> set (proxy_pool self) \<and> healthy self r"
    if ne: "filter (\<lambda>p. healthy self p) (proxy_pool self) \<noteq> []"
  proof -
    from ne v obtain r self' where g: "get_optimal_proxy self now ts bt cap = Inr (r, self')"
      by (simp add: get_optimal_proxy_eq)
    from get_optimal_proxy_Inr(4) [OF g] v have "r \<in> set (proxy_pool self) \<and> healthy self r"
      by simp
    with g show ?thesis by blast
  qed
  moreover have "get_optimal_proxy self now ts bt cap = Inl NoViableProxies"
    if "filter (\<lambda>p. healthy self p) (proxy_pool self) = []"
    using that v by (simp add: get_optimal_proxy_eq)
  ultimately show ?thesis using v by blast
qed

theorem fallback_whole_pool_witness:
  "filter (\<lambda>p. healthy two_regions p \<and> fle (latency (objects two_regions p)) (Fin 200))
         (candidate_proxies two_regions (Some ''texas'')) = []
   \<and> viable_proxies two_regions (Some ''texas'') (Fin 200) = [10, 11]
   \<and> filter (\<lambda>p. healthy two_regions p) (proxy_pool two_regions) = [10, 11]"
proof -
  have "filter (\<lambda>p. healthy two_regions p \<and> fle (latency (objects two_regions p)) (Fin 200))
         (candidate_proxies two_regions (Some ''texas'')) = []"
    by (simp add: candidate_proxies_def two_regions_def healthy_def example_proxy_def
        lower_def lower_char_def)
  moreover have "filter (\<lambda>p. healthy two_regions p) (proxy_pool two_regions) = [10, 11]"
    by (simp add: two_regions_def healthy_def example_proxy_def)
  ultimately show ?thesis
    using fallback_whole_pool [of two_regions "Fin 200" "Some ''texas''" 7 None] by simp
qed

text \<open>
  C5. In a registry whose buckets hold endpoints of the pool, the selection raises the
  no-viable-endpoint error if and only if no endpoint of the entire pool has health at
  least DEGRADED, and it raises no other error; whenever it returns, the returned
  endpoint has health at least DEGRADED. In particular it raises when every endpoint
  is DEAD.
\<close>

theorem no_viable_iff_pool_unhealthy:
  assumes "buckets_in_pool self"
  shows "(get_optimal_proxy self now ts bt cap = Inl NoViableProxies
            \<longleftrightarrow> (\<forall>r\<in>set (proxy_pool self). \<not> healthy self r))
     \<and> (\<forall>e. get_optimal_proxy self now ts bt cap = Inl e \<longrightarrow> e = NoViableProxies)
     \<and> (\<forall>r self'. get_optimal_proxy self now ts bt cap = Inr (r, self') \<longrightarrow>
           health_value (health (objects self r)) \<ge> health_value DEGRADED
           \<and> health_value (health (objects self' r)) \<ge> health_value DEGRADED)
     \<and> ((\<forall>r\<in>set (proxy_pool self). health (objects self r) = DEAD) \<longrightarrow>
           get_optimal_proxy self now ts bt cap = Inl NoViableProxies)"
proof -
  note iff = viable_proxies_Nil_iff [OF assms, of ts cap]
  have 1: "get_optimal_proxy self now ts bt cap = Inl NoViableProxies
            \<longleftrightarrow> (\<forall>r\<in>set (proxy_pool self). \<not> healthy self r)"
    unfolding iff [symmetric] by (simp add: get_optimal_proxy_eq)
  have 2: "e = NoViableProxies" if "get_optimal_proxy self now ts bt cap = Inl e" for e
    using that by (simp add: get_optimal_proxy_eq split: if_splits)
  have 3: "health_value (health (objects self r)) \<ge> health_value DEGRADED
           \<and> health_value (health (objects self' r)) \<ge> health_value DEGRADED"
    if g: "get_optimal_proxy self now ts bt cap = Inr (r, self')" for r self'
  proof -
    have "healthy self r"
      using get_optimal_proxy_Inr(4) [OF g] by (rule viable_proxies_healthy)
    then show ?thesis
      using get_optimal_proxy_Inr(1) [OF g] by (simp add: healthy_def)
  qed
  have 4: "get_optimal_proxy self now ts bt cap = Inl NoViableProxies"
    if "\<forall>r\<in>set (proxy_pool self). health (objects self r) = DEAD"
    using that unfolding 1 by (simp add: healthy_def)
  from 1 2 3 4 show ?thesis by blast
qed

theorem no_viable_iff_pool_unhealthy_witness:
  "buckets_in_pool all_dead
   \<and> health (objects all_dead 10) = DEAD \<and> health (objects all_dead 11) = DEAD
   \<and> proxy_pool all_dead = [10, 11]
   \<and> get_optimal_proxy all_dead 7 (Some ''texas'') None (Fin 200) = Inl NoViableProxies"
proof -
  have "buckets_in_pool all_dead"
    by (simp add: buckets_in_pool_def all_dead_def)
  from no_viable_iff_pool_unhealthy [OF this, of 7 "Some ''texas''" None "Fin 200"] this
  show ?thesis
    by (simp add: all_dead_def example_proxy_def)
qed

text \<open>
  C9. A successful selection leaves the buckets and the pool as they are, changes no
  object but the selected one, and changes nothing of the selected object but its
  \<open>last_used\<close>, set to the current time. A health check of an object changes only its
  latency, success rate and health: address, port, region, locality, provider, AS
  number and credentials are unchanged, and so are all other objects, the buckets and
  the pool.
\<close>

theorem selection_and_probe_frame:
  "(get_optimal_proxy self now ts bt cap = Inr (r, self') \<longrightarrow>
      proxies_by_state self' = proxies_by_state self \<and> proxy_pool self' = proxy_pool self
      \<and> objects self' r = (objects self r)\<lparr>last_used := now\<rparr>
      \<and> (\<forall>q. q \<noteq> r \<longrightarrow> objects self' q = objects self q))
   \<and> (\<exists>l s h. fst (health_check_proxy probes p) = p\<lparr>latency := l, success_rate := s, health := h\<rparr>)
   \<and> ip (fst (health_check_proxy probes p)) = ip p
   \<and> port (fst (health_check_proxy probes p)) = port p
   \<and> state (fst (health_check_proxy probes p)) = state p
   \<and> city (fst (health_check_proxy probes p)) = city p
   \<and> isp (fst (health_check_proxy probes p)) = isp p
   \<and> asn (fst (health_check_proxy probes p)) = asn p
   \<and> username (fst (health_check_proxy probes p)) = username p
   \<and> password (fst (health_check_proxy probes p)) = password p
   \<and> proxies_by_state (fst (health_check_proxy_at self probes a)) = proxies_by_state self
   \<and> proxy_pool (fst (health_check_proxy_at self probes a)) = proxy_pool self
   \<and> (\<forall>q. q \<noteq> a \<longrightarrow> objects (fst (health_check_proxy_at self probes a)) q = objects self q)"
proof -
  have sel: "proxies_by_state self' = proxies_by_state self \<and> proxy_pool self' = proxy_pool self
      \<and> objects self' r = (objects self r)\<lparr>last_used := now\<rparr>
      \<and> (\<forall>q. q \<noteq> r \<longrightarrow> objects self' q = objects self q)"
    if "get_optimal_proxy self now ts bt cap = Inr (r, self')"
    using get_optimal_proxy_Inr(1) [OF that] by simp
  have e: "fst (health_check_proxy probes p) =
     p\<lparr>latency := ema (latency p) (spec_raw_latency probes),
       success_rate := ema (success_rate p) (spec_raw_success_rate probes),
       health := spec_classify (spec_raw_success_rate probes)
                   (ema (latency p) (spec_raw_latency probes))\<rparr>"
    by (rule health_check_proxy_eq)
  then have ex: "\<exists>l s h. fst (health_check_proxy probes p) = p\<lparr>latency := l, success_rate := s, health := h\<rparr>"
    by blast
  have at: "proxies_by_state (fst (health_check_proxy_at self probes a)) = proxies_by_state self
   \<and> proxy_pool (fst (health_check_proxy_at self probes a)) = proxy_pool self
   \<and> (\<forall>q. q \<noteq> a \<longrightarrow> objects (fst (health_check_proxy_at self probes a)) q = objects self q)"
    by (simp add: health_check_proxy_at_def split: prod.splits)
  show ?thesis using sel ex at by (simp add: e)
qed

theorem selection_and_probe_frame_witness:
  "(case get_optimal_proxy two_regions 7 (Some ''Texas'') None (Fin 200) of
      Inl e \<Rightarrow> False
    | Inr (r, self') \<Rightarrow> r = 11 \<and> proxy_pool self' = [10, 11]
        \<and> proxies_by_state self' = [(''texas'', [10]), (''ohio'', [11])]
        \<and> last_used (objects self' 11) = 7 \<and> objects self' 10 = objects two_regions 10)"
proof -
  have "\<exists>self'. get_optimal_proxy two_regions 7 (Some ''Texas'') None (Fin 200) = Inr (11, self')"
    by (simp add: get_optimal_proxy_def viable_proxies_def candidate_proxies_def two_regions_def
        healthy_def example_proxy_def score_def latency_score_def calculate_blocker_score_def
        sort_reverse_def pymax_def fsub_def lower_def lower_char_def Let_def)
  then obtain self' where
    g: "get_optimal_proxy two_regions 7 (Some ''Texas'') None (Fin 200) = Inr (11, self')"
    by blast
  from selection_and_probe_frame [of two_regions 7 "Some ''Texas''" None "Fin 200" 11 self'] g
  show ?thesis by (simp add: two_regions_def)
qed

text \<open>
  C10. The tags IBOSS, GOGUARDIAN, SECURELY and LANSCHOOL have an entry in the provider
  table and in the table of latency ceilings. Each of the six other tags has neither:
  its provider score is 0.5 for every endpoint, its ceiling is the default of 200 ms,
  its score is the score with no tag, and the tag-specialized selection under it is the
  selection with no tag and the default ceiling.
\<close>

theorem untabled_tags_like_no_tag:
  assumes "tag \<in> {LIGHTSPEED, BARKLY, SMOOTHWALL, FORTIGUARD, SONICWALL, PALOALTO}"
  shows "blocker_optimizations tag = None \<and> blocker_latencies tag = None
     \<and> calculate_blocker_score p (Some tag) = Fin 0.5
     \<and> score p (Some tag) = score p None
     \<and> get_proxy_for_school_blocker self now tag ts = get_optimal_proxy self now ts None (Fin 200)
     \<and> blocker_optimizations IBOSS \<noteq> None \<and> blocker_latencies IBOSS \<noteq> None
     \<and> blocker_optimizations GOGUARDIAN \<noteq> None \<and> blocker_latencies GOGUARDIAN \<noteq> None
     \<and> blocker_optimizations SECURELY \<noteq> None \<and> blocker_latencies SECURELY \<noteq> None
     \<and> blocker_optimizations LANSCHOOL \<noteq> None \<and> blocker_latencies LANSCHOOL \<noteq> None"
proof -
  have t: "blocker_optimizations tag = None" "blocker_latencies tag = None"
    using assms by auto
  have b: "calculate_blocker_score q (Some tag) = Fin 0.5" for q
    by (simp add: calculate_blocker_score_def t)
  have n: "calculate_blocker_score q None = Fin 0.5" for q
    by (simp add: calculate_blocker_score_def)
  have s: "score q (Some tag) = score q None" for q
    by (simp add: score_def b n)
  have "get_proxy_for_school_blocker self now tag ts = get_optimal_proxy self now ts None (Fin 200)"
    by (simp add: get_proxy_for_school_blocker_def t get_optimal_proxy_eq s Let_def)
  with t b s show ?thesis by simp
qed

theorem untabled_tags_like_no_tag_witness:
  "LIGHTSPEED \<in> {LIGHTSPEED, BARKLY, SMOOTHWALL, FORTIGUARD, SONICWALL, PALOALTO}
   \<and> score (example_proxy ''texas'' ''Comcast'' (Fin 50) (Fin 0.95) EXCELLENT) (Some LIGHTSPEED)
       = Fin 0.927
   \<and> map_sum id fst (get_proxy_for_school_blocker two_regions 7 LIGHTSPEED (Some ''texas''))
       = Inr 11"
proof -
  have 1: "LIGHTSPEED \<in> {LIGHTSPEED, BARKLY, SMOOTHWALL, FORTIGUARD, SONICWALL, PALOALTO}"
    by simp
  have 2: "score (example_proxy ''texas'' ''Comcast'' (Fin 50) (Fin 0.95) EXCELLENT) None = Fin 0.927"
    by (simp add: score_def latency_score_def calculate_blocker_score_def example_proxy_def
        pymax_def fsub_def)
  have 3: "map_sum id fst (get_optimal_proxy two_regions 7 (Some ''texas'') None (Fin 200)) = Inr 11"
    by (simp add: get_optimal_proxy_def viable_proxies_def candidate_proxies_def two_regions_def
        healthy_def example_proxy_def score_def latency_score_def calculate_blocker_score_def
        sort_reverse_def pymax_def fsub_def lower_def lower_char_def Let_def)
  from untabled_tags_like_no_tag [OF 1,
      of "example_proxy ''texas'' ''Comcast'' (Fin 50) (Fin 0.95) EXCELLENT" two_regions 7
        "Some ''texas''"] 1 2 3
  show ?thesis by simp
qed

section \<open>Chains: results\<close>

lemma same_registry_refl: "same_registry a a"
  by (simp add: same_registry_def)

lemma same_registry_trans:
  assumes "same_registry a b" and "same_registry b c"
  shows "same_registry a c"
  using assms unfolding same_registry_def by metis

lemma same_registry_fields:
  assumes "same_registry a b"
  shows "state (objects b q) = state (objects a q)"
    and "latency (objects b q) = latency (objects a q)"
    and "health (objects b q) = health (objects a q)"
    and "proxies_by_state b = proxies_by_state a"
    and "proxy_pool b = proxy_pool a"
proof -
  have e: "(objects b q)\<lparr>last_used := 0\<rparr> = (objects a q)\<lparr>last_used := 0\<rparr>"
    using assms unfolding same_registry_def by blast
  show "state (objects b q) = state (objects a q)"
    using arg_cong [OF e, of state] by simp
  show "latency (objects b q) = latency (objects a q)"
    using arg_cong [OF e, of latency] by simp
  show "health (objects b q) = health (objects a q)"
    using arg_cong [OF e, of health] by simp
  show "proxies_by_state b = proxies_by_state a" "proxy_pool b = proxy_pool a"
    using assms unfolding same_registry_def by blast+
qed

lemma same_registry_healthy: "same_registry a b \<Longrightarrow> healthy b q = healthy a q"
  by (simp add: healthy_def same_registry_fields(3))

lemma same_registry_state_keys: "same_registry a b \<Longrightarrow> state_keys b = state_keys a"
  by (simp add: state_keys_def same_registry_fields(4))

lemma same_registry_candidate_states:
  assumes "same_registry a b"
  shows "candidate_states b states = candidate_states a states"
  by (simp add: candidate_states_def same_registry_state_keys [OF assms] split: option.splits)

lemma same_registry_bucket_ready:
  assumes "same_registry a b"
  shows "bucket_ready b s = bucket_ready a s"
  by (simp add: bucket_ready_def same_registry_fields(1,2,4) [OF assms]
      same_registry_healthy [OF assms] split: option.splits)

lemma get_optimal_proxy_same_registry:
  assumes "get_optimal_proxy self now ts bt cap = Inr (r, self')"
  shows "same_registry self self'"
  unfolding get_optimal_proxy_Inr(1) [OF assms] by (simp add: same_registry_def)

lemma rotate_loop_Inr:
  assumes "rotate_loop rnd clock states bt n i (chain, used, self) = Inr (chain', used', self')"
  shows "same_registry self self' \<and> (\<exists>rest. chain' = chain @ rest \<and> length rest = n)"
  using assms
proof (induction n arbitrary: i chain used self)
  case 0
  then show ?case by (simp add: same_registry_refl)
next
  case (Suc n)
  from Suc.prems obtain t r self1 where
    g: "get_optimal_proxy self (clock i) (Some t) bt (Fin 200) = Inr (r, self1)"
    and l: "rotate_loop rnd clock states bt n (Suc i) (chain @ [r], insert t used, self1)
              = Inr (chain', used', self')"
    by (auto split: sum.splits)
  from Suc.IH [OF l] obtain rest where
    1: "same_registry self1 self'" "chain' = (chain @ [r]) @ rest" "length rest = n"
    by blast
  have "same_registry self self'"
    using get_optimal_proxy_same_registry [OF g] 1(1) by (rule same_registry_trans)
  moreover have "chain' = chain @ (r # rest) \<and> length (r # rest) = Suc n"
    using 1(2,3) by simp
  ultimately show ?case by blast
qed

lemma viable_proxies_nonempty:
  assumes "\<exists>r\<in>set (proxy_pool self). healthy self r"
  shows "viable_proxies self ts cap \<noteq> []"
  using assms by (auto simp: viable_proxies_def Let_def filter_empty_conv)

lemma rotate_loop_succeeds:
  assumes "state_keys self \<noteq> []" and "\<exists>r\<in>set (proxy_pool self). healthy self r"
  shows "\<exists>st'. rotate_loop rnd clock states bt n i (chain, used, self) = Inr st'"
  using assms
proof (induction n arbitrary: i chain used self)
  case 0
  then show ?case by simp
next
  case (Suc n)
  have "available_states self states used \<noteq> []"
    using Suc.prems(1) by (simp add: available_states_def Let_def)
  then obtain t where t: "random_choice (rnd i) (available_states self states used) = Inr t"
    by (simp add: random_choice_def)
  have "viable_proxies self (Some t) (Fin 200) \<noteq> []"
    using Suc.prems(2) by (rule viable_proxies_nonempty)
  then obtain r self1 where
    g: "get_optimal_proxy self (clock i) (Some t) bt (Fin 200) = Inr (r, self1)"
    by (simp add: get_optimal_proxy_eq)
  note s = get_optimal_proxy_same_registry [OF g]
  have "state_keys self1 \<noteq> []"
    using Suc.prems(1) by (simp add: same_registry_state_keys [OF s])
  moreover have "\<exists>r\<in>set (proxy_pool self1). healthy self1 r"
    using Suc.prems(2) by (simp add: same_registry_fields(5) [OF s] same_registry_healthy [OF s])
  ultimately obtain st' where
    "rotate_loop rnd clock states bt n (Suc i) (chain @ [r], insert t used, self1) = Inr st'"
    using Suc.IH by blast
  then show ?case
    using t g by (cases st') simp
qed

lemma hop_in_region:
  assumes "bucket_ready self t"
    and "get_optimal_proxy self now (Some t) bt (Fin 200) = Inr (r, self')"
  shows "state (objects self r) = lower t"
proof -
  from assms(1) obtain bucket where
    b: "t \<noteq> []" "map_of (proxies_by_state self) (lower t) = Some bucket"
      "\<exists>q\<in>set bucket. healthy self q \<and> fle (latency (objects self q)) (Fin 200)"
      "\<forall>q\<in>set bucket. state (objects self q) = lower t"
    by (auto simp: bucket_ready_def list_ex_iff list_all_iff split: option.splits)
  have c: "candidate_proxies self (Some t) = bucket"
    using b(1,2) by (simp add: candidate_proxies_def)
  have "filter (\<lambda>p. healthy self p \<and> fle (latency (objects self p)) (Fin 200)) bucket \<noteq> []"
    using b(3) by (simp add: filter_empty_conv)
  then have "set (viable_proxies self (Some t) (Fin 200)) \<subseteq> set bucket"
    by (auto simp: viable_proxies_def c Let_def)
  with get_optimal_proxy_Inr(4) [OF assms(2)] b(4) show ?thesis
    by blast
qed

lemma rotate_loop_distinct:
  assumes "rotate_loop rnd clock states bt n i (chain, used, self) = Inr (chain', used', self')"
    and "\<forall>s\<in>set (candidate_states self states). bucket_ready self s"
    and "inj_on lower (set (candidate_states self states))"
    and "used \<subseteq> set (candidate_states self states)"
    and "length chain = card used"
    and "(\<lambda>r. state (objects self r)) ` set chain = lower ` used"
    and "distinct (map (\<lambda>r. state (objects self r)) chain)"
  shows "distinct (map (\<lambda>r. state (objects self' r))
           (take (card (set (candidate_states self states))) chain'))"
  using assms
proof (induction n arbitrary: i chain used self)
  case 0
  then have "chain' = chain" "self' = self"
    by simp_all
  with "0.prems"(7) show ?case
    by (simp add: take_map [symmetric] distinct_take)
next
  case (Suc n)
  let ?cs = "candidate_states self states"
  from Suc.prems(1) obtain t r self1 where
    t: "random_choice (rnd i) (available_states self states used) = Inr t"
    and g: "get_optimal_proxy self (clock i) (Some t) bt (Fin 200) = Inr (r, self1)"
    and l: "rotate_loop rnd clock states bt n (Suc i) (chain @ [r], insert t used, self1)
              = Inr (chain', used', self')"
    by (auto split: sum.splits)
  note s1 = get_optimal_proxy_same_registry [OF g]
  show ?case
  proof (cases "filter (\<lambda>s. s \<notin> used) ?cs = []")
    case True
    then have "set ?cs \<subseteq> used"
      by (auto simp: filter_empty_conv)
    with Suc.prems(4) have "used = set ?cs"
      by blast
    with Suc.prems(5) have len: "length chain = card (set ?cs)"
      by simp
    from rotate_loop_Inr [OF Suc.prems(1)] obtain rest where
      r: "same_registry self self'" "chain' = chain @ rest"
      by blast
    have "take (card (set ?cs)) chain' = chain"
      using len r(2) by simp
    then show ?thesis
      using Suc.prems(7) by (simp add: same_registry_fields(1) [OF r(1)])
  next
    case False
    then have av: "available_states self states used = filter (\<lambda>s. s \<notin> used) ?cs"
      by (simp add: available_states_def Let_def)
    from t have "t \<in> set (available_states self states used)"
      by (auto simp: random_choice_def split: if_splits)
    then have tin: "t \<in> set ?cs" and tnew: "t \<notin> used"
      by (simp_all add: av)
    have reg: "state (objects self r) = lower t"
      using Suc.prems(2) tin g hop_in_region by blast
    have st: "state (objects self1 q) = state (objects self q)" for q
      by (rule same_registry_fields(1) [OF s1])
    have cs1: "candidate_states self1 states = ?cs"
      by (rule same_registry_candidate_states [OF s1])
    have fin: "finite used"
      using Suc.prems(4) by (rule finite_subset) simp
    have notin: "lower t \<notin> lower ` used"
    proof
      assume "lower t \<in> lower ` used"
      then obtain u where u: "u \<in> used" "lower t = lower u"
        by blast
      then have "t = u"
        using Suc.prems(3,4) tin by (meson inj_onD subsetD)
      with u(1) tnew show False
        by simp
    qed
    have 2: "\<forall>s\<in>set (candidate_states self1 states). bucket_ready self1 s"
      using Suc.prems(2) by (simp add: cs1 same_registry_bucket_ready [OF s1])
    have 3: "inj_on lower (set (candidate_states self1 states))"
      using Suc.prems(3) by (simp add: cs1)
    have 4: "insert t used \<subseteq> set (candidate_states self1 states)"
      using Suc.prems(4) tin by (simp add: cs1)
    have 5: "length (chain @ [r]) = card (insert t used)"
      using Suc.prems(5) fin tnew by simp
    have 6: "(\<lambda>r. state (objects self1 r)) ` set (chain @ [r]) = lower ` insert t used"
      using Suc.prems(6) reg by (simp add: st)
    have 7: "distinct (map (\<lambda>r. state (objects self1 r)) (chain @ [r]))"
      using Suc.prems(6,7) reg notin by (auto simp: st)
    from Suc.IH [OF l 2 3 4 5 6 7] show ?thesis
      by (simp add: cs1)
  qed
qed

text \<open>
  C6, as the claim states it, fails. Two hops are asked from the regions texas and ohio,
  both unused and both with a bucket. The first hop targets texas, whose only endpoint
  is too slow for the 200 ms ceiling, so the selection falls back to the whole pool and
  returns the endpoint of ohio; the second hop targets ohio and returns the same
  endpoint. The two hops of the chain share the region ohio.
\<close>

theorem chain_regions_counterexample:
  "map_of (proxies_by_state two_regions) ''texas'' = Some [10]
   \<and> map_of (proxies_by_state two_regions) ''ohio'' = Some [11]
   \<and> chain_regions (rotate_proxy_chain two_regions first_choice fixed_clock 2
         (Some [''texas'', ''ohio'']) None) = Inr [''ohio'', ''ohio'']"
  by (simp add: chain_regions_def rotate_proxy_chain_def eval_nat_numeral available_states_def
        candidate_states_def random_choice_def first_choice_def fixed_clock_def
        get_optimal_proxy_def viable_proxies_def candidate_proxies_def two_regions_def
        healthy_def example_proxy_def score_def latency_score_def calculate_blocker_score_def
        sort_reverse_def pymax_def fsub_def lower_def lower_char_def Let_def)

text \<open>
  C6, amended. A chain that is returned has exactly as many endpoints as hops were asked
  for. When every candidate region names a bucket of endpoints of that region with at
  least one endpoint of health at least DEGRADED and latency at most 200 ms, and the
  candidate regions are distinct after lowercasing, the hops made while candidate
  regions remain unused have pairwise distinct regions: the first k hops, for k the
  number of distinct candidate regions. When the candidate regions are exhausted the
  exclusion is dropped instead of failing: with at least one region in the registry and
  one endpoint of health at least DEGRADED in the pool, the call succeeds for every
  number of hops.
\<close>

theorem chain_length_and_regions:
  "(rotate_proxy_chain self rnd clock n states bt = Inr (chain, self') \<longrightarrow>
      length chain = nat n
      \<and> ((\<forall>s\<in>set (candidate_states self states). bucket_ready self s)
           \<and> inj_on lower (set (candidate_states self states)) \<longrightarrow>
         distinct (map (\<lambda>r. state (objects self' r))
           (take (card (set (candidate_states self states))) chain))))
   \<and> (state_keys self \<noteq> [] \<and> (\<exists>r\<in>set (proxy_pool self). healthy self r) \<longrightarrow>
        (\<exists>chain self'. rotate_proxy_chain self rnd clock n states bt = Inr (chain, self')
           \<and> length chain = nat n))"
proof -
  have len: "length chain = nat n"
    if "rotate_proxy_chain self rnd clock n states bt = Inr (chain, self')" for chain self'
  proof -
    from that obtain used' where
      "rotate_loop rnd clock states bt (nat n) 0 ([], {}, self) = Inr (chain, used', self')"
      by (auto simp: rotate_proxy_chain_def split: sum.splits)
    from rotate_loop_Inr [OF this] show ?thesis
      by auto
  qed
  have dist: "distinct (map (\<lambda>r. state (objects self' r))
           (take (card (set (candidate_states self states))) chain))"
    if "rotate_proxy_chain self rnd clock n states bt = Inr (chain, self')"
      and "\<forall>s\<in>set (candidate_states self states). bucket_ready self s"
      and "inj_on lower (set (candidate_states self states))"
  proof -
    from that(1) obtain used' where
      "rotate_loop rnd clock states bt (nat n) 0 ([], {}, self) = Inr (chain, used', self')"
      by (auto simp: rotate_proxy_chain_def split: sum.splits)
    from rotate_loop_distinct [OF this that(2,3)] show ?thesis
      by simp
  qed
  have succ: "\<exists>chain self'. rotate_proxy_chain self rnd clock n states bt = Inr (chain, self')
           \<and> length chain = nat n"
    if "state_keys self \<noteq> []" and "\<exists>r\<in>set (proxy_pool self). healthy self r"
  proof -
    from rotate_loop_succeeds [OF that] obtain st' where
      "rotate_loop rnd clock states bt (nat n) 0 ([], {}, self) = Inr st'"
      by blast
    then obtain chain self' where
      "rotate_proxy_chain self rnd clock n states bt = Inr (chain, self')"
      by (cases st') (auto simp: rotate_proxy_chain_def)
    with len show ?thesis
      by blast
  qed
  from len dist succ show ?thesis
    by blast
qed

lemma fast_chain:
  "chain_regions (rotate_proxy_chain fast_regions first_choice fixed_clock 3
         (Some [''texas'', ''ohio'']) None) = Inr [''texas'', ''ohio'', ''texas'']"
  by (simp add: chain_regions_def rotate_proxy_chain_def eval_nat_numeral available_states_def
        candidate_states_def random_choice_def first_choice_def fixed_clock_def state_keys_def
        get_optimal_proxy_def viable_proxies_def candidate_proxies_def fast_regions_def
        healthy_def example_proxy_def score_def latency_score_def calculate_blocker_score_def
        sort_reverse_def pymax_def fsub_def lower_def lower_char_def Let_def)

theorem chain_length_and_regions_witness:
  "bucket_ready fast_regions ''texas'' \<and> bucket_ready fast_regions ''ohio''
   \<and> lower ''texas'' \<noteq> lower ''ohio''
   \<and> state_keys fast_regions \<noteq> [] \<and> healthy fast_regions 10
   \<and> (case rotate_proxy_chain fast_regions first_choice fixed_clock 3
             (Some [''texas'', ''ohio'']) None of
         Inl e \<Rightarrow> False
       | Inr (chain, self') \<Rightarrow>
           length chain = 3 \<and> distinct (map (\<lambda>r. state (objects self' r)) (take 2 chain)))
   \<and> chain_regions (rotate_proxy_chain fast_regions first_choice fixed_clock 3
         (Some [''texas'', ''ohio'']) None) = Inr [''texas'', ''ohio'', ''texas'']"
proof -
  note T = chain_length_and_regions
    [of fast_regions first_choice fixed_clock 3 "Some [''texas'', ''ohio'']" None]
  have cs: "candidate_states fast_regions (Some [''texas'', ''ohio'']) = [''texas'', ''ohio'']"
    by (simp add: candidate_states_def)
  have low: "lower ''texas'' = ''texas''" "lower ''ohio'' = ''ohio''"
    by (simp_all add: lower_def lower_char_def)
  have r: "bucket_ready fast_regions ''texas''" "bucket_ready fast_regions ''ohio''"
    by (simp_all add: bucket_ready_def low fast_regions_def healthy_def example_proxy_def)
  have k: "state_keys fast_regions \<noteq> []" "healthy fast_regions 10"
    by (simp_all add: state_keys_def fast_regions_def healthy_def example_proxy_def)
  have pool: "\<exists>r\<in>set (proxy_pool fast_regions). healthy fast_regions r"
    using k(2) by (simp add: fast_regions_def)
  from T [of "[]" fast_regions] k(1) pool obtain chain self' where
    c: "rotate_proxy_chain fast_regions first_choice fixed_clock 3
          (Some [''texas'', ''ohio'']) None = Inr (chain, self')"
    by blast
  have inj: "inj_on lower (set (candidate_states fast_regions (Some [''texas'', ''ohio''])))"
    by (simp add: cs low)
  have ready: "\<forall>s\<in>set (candidate_states fast_regions (Some [''texas'', ''ohio''])).
      bucket_ready fast_regions s"
    using r by (simp add: cs)
  have "card (set (candidate_states fast_regions (Some [''texas'', ''ohio'']))) = 2"
    by (simp add: cs)
  with T [of chain self'] c inj ready
  have d: "length chain = 3 \<and> distinct (map (\<lambda>r. state (objects self' r)) (take 2 chain))"
    by simp
  show ?thesis
    using r k low c d fast_chain by simp
qed

end
